theory Spec2Isabelle
  imports Complex_Main "HOL-Library.Sublist"
begin

section \<open>The airports refresh pipeline of scripts/download_airports.py\<close>

text \<open>
  The script downloads a CSV file to a temporary path, filters it into the output path
  and removes the temporary file; in continuous mode it repeats that cycle after a
  fixed sleep. The model below follows the four functions \<open>download_file\<close>,
  \<open>filter_csv\<close>, \<open>run_once\<close> and \<open>run_continuously\<close> of the source, and the
  library behaviour they rely on (\<open>pathlib\<close>, \<open>str.strip\<close>, \<open>csv.DictReader\<close>,
  \<open>csv.DictWriter\<close>) as CPython documents and implements it.

  What lies outside the program is a parameter of the model:
  \<^item> the outcome of the HTTP request is a value of type \<open>response\<close>;
  \<^item> \<open>csv.reader\<close> is a function \<open>rd\<close> from the bytes of a file to the lines it
    yields, each a list of fields (or to the exception it raises), and the line
    formatter of \<open>csv.writer\<close> is a function \<open>wr\<close> from a list of fields to the text
    of one line;
  \<^item> the file system is a map from paths to the bytes stored there. Opening, writing
    and unlinking a file succeed; the failures modelled are those the data decides;
  \<^item> in continuous mode, \<open>time.sleep\<close> is a function \<open>time_sleep\<close> that tells
    whether the call sleeps or raises, and the interrupt arrives during a sleep.

  Messages written with \<open>print\<close>, and the two row counters that only feed them, are
  left out. Python strings are modelled as \<open>string\<close>, a \<open>char\<close> standing for a code
  point below 256.
\<close>

subsection \<open>Exceptions, paths, files\<close>

text \<open>The exceptions that occur: \<open>ValueError\<close> (\<open>with_suffix\<close>, \<open>DictWriter\<close>,
  \<open>time.sleep\<close>), \<open>OverflowError\<close> (\<open>time.sleep\<close>), \<open>AttributeError\<close>
  (\<open>None.strip()\<close>), and those a reader can raise.\<close>

datatype exn = ValueError | OverflowError | AttributeError | UnicodeDecodeError | CsvError

text \<open>A \<open>pathlib.Path\<close>: the components before the last one, and the last one (the
  \<open>name\<close>, empty for the root directory only).\<close>

datatype path = Path (parent: "string list") (name: string)

type_synonym bytes = string

type_synonym fs = "path \<Rightarrow> bytes option"

subsection \<open>pathlib: suffix and with\_suffix\<close>

text \<open>\<open>str.rfind\<close> for one character: the highest index holding it.\<close>

fun rfind :: "char \<Rightarrow> string \<Rightarrow> nat option" where
  "rfind c [] = None"
| "rfind c (x # xs) =
     (case rfind c xs of
        Some i \<Rightarrow> Some (Suc i)
      | None \<Rightarrow> (if x = c then Some 0 else None))"

text \<open>\<open>PurePath.suffix\<close>: the part of the name from its last dot on, when that dot is
  neither the first nor the last character of the name.\<close>

definition suffix_of :: "string \<Rightarrow> string" where
  "suffix_of nm =
     (case rfind (CHR ''.'') nm of
        None \<Rightarrow> []
      | Some i \<Rightarrow> (if 0 < i \<and> Suc i < length nm then drop i nm else []))"

text \<open>\<open>PurePath.with_suffix\<close>: raises \<open>ValueError\<close> on an invalid suffix and on a
  path whose name is empty.\<close>

definition with_suffix :: "path \<Rightarrow> string \<Rightarrow> exn + path" where
  "with_suffix p sfx =
     (if CHR ''/'' \<in> set sfx then Inl ValueError
      else if (sfx \<noteq> [] \<and> hd sfx \<noteq> CHR ''.'') \<or> sfx = ''.'' then Inl ValueError
      else if name p = [] then Inl ValueError
      else
        (let old_suffix = suffix_of (name p) in
         if old_suffix = [] then Inr (Path (parent p) (name p @ sfx))
         else Inr (Path (parent p)
                (take (length (name p) - length old_suffix) (name p) @ sfx))))"

subsection \<open>download\_file\<close>

text \<open>The outcome of \<open>requests.get\<close> and \<open>raise_for_status\<close>: the request fails
  before any byte is written, or the body arrives as a list of chunks, after which the
  stream either ends or raises (\<open>True\<close>: it raises).\<close>

datatype response = RequestFailed | Body "bytes list" bool

text \<open>The file is opened for writing only after the request has succeeded; every chunk
  received before a failure stays in it. Both \<open>except\<close> branches return \<open>False\<close>.\<close>

definition download_file :: "response \<Rightarrow> path \<Rightarrow> fs \<Rightarrow> bool \<times> fs" where
  "download_file resp output_path files =
     (case resp of
        RequestFailed \<Rightarrow> (False, files)
      | Body chunks broken \<Rightarrow>
          (\<not> broken,
           files(output_path \<mapsto> concat (filter (\<lambda>chunk. chunk \<noteq> []) chunks))))"

subsection \<open>str.strip\<close>

text \<open>The code points below 256 that \<open>str.isspace\<close> accepts.\<close>

definition whitespace :: "char list" where
  "whitespace =
     [CHR 0x09, CHR 0x0A, CHR 0x0B, CHR 0x0C, CHR 0x0D,
      CHR 0x1C, CHR 0x1D, CHR 0x1E, CHR 0x1F, CHR 0x20, CHR 0x85, CHR 0xA0]"

definition is_space :: "char \<Rightarrow> bool" where
  "is_space c = (c \<in> set whitespace)"

definition strip :: "string \<Rightarrow> string" where
  "strip s = rev (dropWhile is_space (rev (dropWhile is_space s)))"

subsection \<open>csv.DictReader\<close>

text \<open>A row dictionary of \<open>DictReader\<close>. Its string keys are the \<open>cells\<close>, in insertion
  order; a value is a string or Python's \<open>None\<close> (the \<open>restval\<close> of a short line). The
  one other key a row can have is the \<open>restkey\<close> \<open>None\<close>, which holds the surplus
  fields of a long line: \<open>overflow\<close>.\<close>

datatype row = Row (cells: "(string \<times> string option) list") (overflow: "string list option")

text \<open>\<open>d[k] = v\<close> on an insertion-ordered dictionary.\<close>

fun dict_set :: "'k \<Rightarrow> 'v \<Rightarrow> ('k \<times> 'v) list \<Rightarrow> ('k \<times> 'v) list" where
  "dict_set k v [] = [(k, v)]"
| "dict_set k v (kv # d) = (if fst kv = k then (k, v) # d else kv # dict_set k v d)"

text \<open>\<open>dict(pairs)\<close>: a later pair overwrites an earlier one with the same key.\<close>

definition dict_of :: "('k \<times> 'v) list \<Rightarrow> ('k \<times> 'v) list" where
  "dict_of kvs = foldl (\<lambda>d kv. dict_set (fst kv) (snd kv) d) [] kvs"

text \<open>\<open>DictReader.fieldnames\<close>: the first line the reader yields, \<open>None\<close> when it
  yields nothing.\<close>

definition DictReader_fieldnames :: "string list list \<Rightarrow> string list option" where
  "DictReader_fieldnames lines = (case lines of [] \<Rightarrow> None | h # _ \<Rightarrow> Some h)"

text \<open>\<open>DictReader.__next__\<close> on one non-blank line.\<close>

definition DictReader_next :: "string list \<Rightarrow> string list \<Rightarrow> row" where
  "DictReader_next fieldnames line =
     (let d = dict_of (zip fieldnames (map Some line));
          lf = length fieldnames;
          lr = length line
      in if lf < lr then Row d (Some (drop lf line))
         else if lf > lr then
           Row (foldl (\<lambda>d key. dict_set key None d) d (drop lr fieldnames)) None
         else Row d None)"

text \<open>Blank lines are skipped.\<close>

definition DictReader_rows :: "string list \<Rightarrow> string list list \<Rightarrow> row list" where
  "DictReader_rows fieldnames lines =
     map (DictReader_next fieldnames) (filter (\<lambda>line. line \<noteq> []) lines)"

subsection \<open>filter\_csv: selection and projection\<close>

definition columns_to_remove :: "string set" where
  "columns_to_remove = {''id'', ''home_link'', ''wikipedia_link'', ''keywords''}"

text \<open>\<open>row.get(key, '')\<close>: the default only replaces an absent key, not a \<open>None\<close>
  value.\<close>

definition row_get :: "row \<Rightarrow> string \<Rightarrow> string option" where
  "row_get r key = (case map_of (cells r) key of None \<Rightarrow> Some [] | Some v \<Rightarrow> v)"

text \<open>\<open>.strip()\<close> on the value looked up: \<open>None\<close> has no such attribute.\<close>

definition strip_value :: "string option \<Rightarrow> exn + string" where
  "strip_value v = (case v of None \<Rightarrow> Inl AttributeError | Some s \<Rightarrow> Inr (strip s))"

text \<open>The two lookups and the test of one loop iteration.\<close>

definition row_selected :: "row \<Rightarrow> exn + bool" where
  "row_selected r =
     (case strip_value (row_get r ''iso_country'') of
        Inl e \<Rightarrow> Inl e
      | Inr iso_country \<Rightarrow>
          (case strip_value (row_get r ''icao_code'') of
             Inl e \<Rightarrow> Inl e
           | Inr icao_code \<Rightarrow> Inr (iso_country = ''US'' \<and> icao_code \<noteq> [])))"

text \<open>\<open>{k: v for k, v in row.items() if k not in columns_to_remove}\<close>: the key
  \<open>None\<close> is not in the set, so the overflow stays.\<close>

definition filtered_row :: "row \<Rightarrow> row" where
  "filtered_row r =
     Row (filter (\<lambda>kv. fst kv \<notin> columns_to_remove) (cells r)) (overflow r)"

text \<open>The \<open>for row in reader\<close> loop, with \<open>filtered_data\<close> as its accumulator.\<close>

fun filter_loop :: "row list \<Rightarrow> row list \<Rightarrow> exn + row list" where
  "filter_loop [] filtered_data = Inr filtered_data"
| "filter_loop (r # rs) filtered_data =
     (case row_selected r of
        Inl e \<Rightarrow> Inl e
      | Inr keep \<Rightarrow>
          filter_loop rs (if keep then filtered_data @ [filtered_row r] else filtered_data))"

definition output_fieldnames :: "string list \<Rightarrow> string list" where
  "output_fieldnames fieldnames = filter (\<lambda>f. f \<notin> columns_to_remove) fieldnames"

text \<open>The first \<open>with\<close> block of \<open>filter_csv\<close>, which only reads: it ends with the
  early \<open>return False\<close> (no headers), with an exception, or with the output field
  names and the filtered rows in memory.\<close>

datatype read_result = NoHeaders | Raised exn | Filtered "string list" "row list"

definition read_phase :: "(bytes \<Rightarrow> exn + string list list) \<Rightarrow> bytes \<Rightarrow> read_result" where
  "read_phase rd raw =
     (case rd raw of
        Inl e \<Rightarrow> Raised e
      | Inr lines \<Rightarrow>
          (case DictReader_fieldnames lines of
             None \<Rightarrow> NoHeaders
           | Some fieldnames \<Rightarrow>
               (case filter_loop (DictReader_rows fieldnames (tl lines)) [] of
                  Inl e \<Rightarrow> Raised e
                | Inr filtered_data \<Rightarrow>
                    Filtered (output_fieldnames fieldnames) filtered_data)))"

subsection \<open>csv.DictWriter\<close>

text \<open>\<open>rowdict.keys() - self.fieldnames\<close> is not empty.\<close>

definition wrong_fields :: "string list \<Rightarrow> row \<Rightarrow> bool" where
  "wrong_fields fieldnames d =
     ((\<exists>k \<in> set (map fst (cells d)). k \<notin> set fieldnames) \<or> overflow d \<noteq> None)"

text \<open>The fields handed to the underlying writer: \<open>rowdict.get(key, '')\<close> for each
  field name; the writer renders \<open>None\<close> as the empty string.\<close>

definition dict_to_list :: "string list \<Rightarrow> row \<Rightarrow> string list" where
  "dict_to_list fieldnames d =
     map (\<lambda>key. case map_of (cells d) key of
                   None \<Rightarrow> []
                 | Some None \<Rightarrow> []
                 | Some (Some s) \<Rightarrow> s) fieldnames"

text \<open>\<open>writerows\<close>: the lines written, and whether all rows were (\<open>False\<close>: a row
  with wrong fields raised \<open>ValueError\<close>, after the lines before it were written).\<close>

fun writerows :: "string list \<Rightarrow> row list \<Rightarrow> string list list \<times> bool" where
  "writerows fieldnames [] = ([], True)"
| "writerows fieldnames (d # ds) =
     (if wrong_fields fieldnames d then ([], False)
      else
        (case writerows fieldnames ds of
           (written, ok) \<Rightarrow> (dict_to_list fieldnames d # written, ok)))"

text \<open>The text of a file made of the given lines.\<close>

definition render :: "(string list \<Rightarrow> bytes) \<Rightarrow> string list list \<Rightarrow> bytes" where
  "render wr lines = concat (map wr lines)"

subsection \<open>filter\_csv\<close>

text \<open>A missing input file makes \<open>open\<close> raise, which ends the call like every
  other exception: with \<open>False\<close>. The output file is opened (and so truncated) only
  after the read phase; the header line is the list of output field names; whatever
  was written before an exception stays in the file.\<close>

definition filter_csv ::
  "(bytes \<Rightarrow> exn + string list list) \<Rightarrow> (string list \<Rightarrow> bytes) \<Rightarrow> path \<Rightarrow> path \<Rightarrow> fs \<Rightarrow> bool \<times> fs"
where
  "filter_csv rd wr input_path output_path files =
     (case files input_path of
        None \<Rightarrow> (False, files)
      | Some raw \<Rightarrow>
          (case read_phase rd raw of
             NoHeaders \<Rightarrow> (False, files)
           | Raised e \<Rightarrow> (False, files)
           | Filtered out_fields filtered_data \<Rightarrow>
               (case writerows out_fields filtered_data of
                  (written, ok) \<Rightarrow>
                    (ok, files(output_path \<mapsto> render wr (out_fields # written))))))"

subsection \<open>run\_once and run\_continuously\<close>

text \<open>\<open>if temp_path.exists(): temp_path.unlink()\<close>\<close>

definition unlink_if_exists :: "path \<Rightarrow> fs \<Rightarrow> fs" where
  "unlink_if_exists p files = (if files p = None then files else files(p := None))"

text \<open>One cycle. \<open>with_suffix\<close> is called outside any \<open>try\<close>, so its
  \<open>ValueError\<close> leaves \<open>run_once\<close> as an exception (\<open>Inl\<close>); otherwise the
  result is the boolean returned.\<close>

definition run_once ::
  "(bytes \<Rightarrow> exn + string list list) \<Rightarrow> (string list \<Rightarrow> bytes) \<Rightarrow> response \<Rightarrow> path \<Rightarrow> fs
     \<Rightarrow> (exn + bool) \<times> fs"
where
  "run_once rd wr resp output_path files =
     (case with_suffix output_path ''.tmp.csv'' of
        Inl e \<Rightarrow> (Inl e, files)
      | Inr temp_path \<Rightarrow>
          (case download_file resp temp_path files of
             (downloaded, files1) \<Rightarrow>
               if \<not> downloaded then (Inr False, files1)
               else
                 (case filter_csv rd wr temp_path output_path files1 of
                    (filtered, files2) \<Rightarrow>
                      if \<not> filtered then (Inr False, unlink_if_exists temp_path files2)
                      else (Inr True, unlink_if_exists temp_path files2))))"

text \<open>Continuous mode runs until a \<open>KeyboardInterrupt\<close>, or until an exception that
  the loop does not catch. The environment of a run is the response to the first
  request and the list of responses to the requests of the loop; the interrupt arrives
  during the sleep that follows the last of them.

  The interval is a number of any type \<open>'t\<close> that has a product and numerals, and
  \<open>interval_hours * 3600\<close> is the product of that type; nothing is assumed about it,
  so the float product of the source, which rounds, is one instance. \<open>time.sleep\<close> is
  the parameter \<open>time_sleep\<close>: \<open>None\<close> when it takes the argument and sleeps, the
  exception when it refuses it (\<open>ValueError\<close> for a negative number or a NaN,
  \<open>OverflowError\<close> for one too large).

  What the run does is recorded as a list of events: \<open>Cycle ok\<close> for a call of
  \<open>run_once\<close> that returned \<open>ok\<close>, \<open>Sleep s\<close> for a call of \<open>time.sleep(s)\<close> that
  was accepted, \<open>Stopped\<close> for the interrupt caught, \<open>Uncaught e\<close> for an exception
  of \<open>run_once\<close> or of \<open>time.sleep\<close>, which leaves the function.\<close>

datatype 't event = Cycle bool | Sleep 't | Uncaught exn | Stopped

text \<open>The \<open>while True\<close> loop.\<close>

fun periodic ::
  "(bytes \<Rightarrow> exn + string list list) \<Rightarrow> (string list \<Rightarrow> bytes) \<Rightarrow> ('t \<Rightarrow> exn option) \<Rightarrow> path
     \<Rightarrow> 't \<Rightarrow> response list \<Rightarrow> fs \<Rightarrow> 't event list \<times> fs"
where
  "periodic rd wr time_sleep output_path interval_seconds [] files =
     (case time_sleep interval_seconds of
        Some e \<Rightarrow> ([Uncaught e], files)
      | None \<Rightarrow> ([Sleep interval_seconds, Stopped], files))"
| "periodic rd wr time_sleep output_path interval_seconds (resp # resps) files =
     (case time_sleep interval_seconds of
        Some e \<Rightarrow> ([Uncaught e], files)
      | None \<Rightarrow>
          (case run_once rd wr resp output_path files of
             (Inl e, files1) \<Rightarrow> ([Sleep interval_seconds, Uncaught e], files1)
           | (Inr ok, files1) \<Rightarrow>
               (case periodic rd wr time_sleep output_path interval_seconds resps files1 of
                  (events, files2) \<Rightarrow>
                    (Sleep interval_seconds # Cycle ok # events, files2))))"

definition run_continuously ::
  "(bytes \<Rightarrow> exn + string list list) \<Rightarrow> (string list \<Rightarrow> bytes) \<Rightarrow> ('t \<Rightarrow> exn option) \<Rightarrow> path
     \<Rightarrow> ('t :: {times, numeral}) \<Rightarrow> response \<Rightarrow> response list \<Rightarrow> fs \<Rightarrow> 't event list \<times> fs"
where
  "run_continuously rd wr time_sleep output_path interval_hours resp resps files =
     (let interval_seconds = interval_hours * 3600 in
      case run_once rd wr resp output_path files of
        (Inl e, files1) \<Rightarrow> ([Uncaught e], files1)
      | (Inr ok, files1) \<Rightarrow>
          (case periodic rd wr time_sleep output_path interval_seconds resps files1 of
             (events, files2) \<Rightarrow> (Cycle ok # events, files2)))"

text \<open>\<open>time.sleep\<close> on real numbers, where only the sign matters: a negative argument
  is refused with \<open>ValueError\<close>.\<close>

definition sleep_check :: "real \<Rightarrow> exn option" where
  "sleep_check s = (if s < 0 then Some ValueError else None)"

subsection \<open>A reader and a writer for plain text\<close>

text \<open>One instance of the two parameters, used to run the model on concrete files. On
  text without quotes and carriage returns \<open>plain_reader\<close> yields the rows that
  \<open>csv.reader\<close> yields (a blank line is the empty row), and on fields without commas,
  quotes and line breaks \<open>plain_writerow\<close> writes the line that \<open>csv.writer\<close> writes
  (the fields joined by commas, then CR LF), a row of one empty field apart.\<close>

fun split_on :: "char \<Rightarrow> string \<Rightarrow> string list" where
  "split_on c [] = [[]]"
| "split_on c (x # xs) =
     (if x = c then [] # split_on c xs
      else (case split_on c xs of [] \<Rightarrow> [[x]] | p # ps \<Rightarrow> (x # p) # ps))"

definition text_lines :: "bytes \<Rightarrow> string list" where
  "text_lines s =
     (let ps = split_on (CHR 0x0A) s in if last ps = [] then butlast ps else ps)"

definition plain_reader :: "bytes \<Rightarrow> exn + string list list" where
  "plain_reader s =
     Inr (map (\<lambda>l. if l = [] then [] else split_on (CHR '','') l) (text_lines s))"

fun join_fields :: "string list \<Rightarrow> string" where
  "join_fields [] = []"
| "join_fields [f] = f"
| "join_fields (f # g # fs) = f @ '','' @ join_fields (g # fs)"

definition plain_writerow :: "string list \<Rightarrow> bytes" where
  "plain_writerow fields = join_fields fields @ [CHR 0x0D, CHR 0x0A]"

subsection \<open>The selection rule in the words of the specification\<close>

text \<open>The specification speaks of records whose fields are strings: a record is kept
  when its country field trims to the target value and its code field is non-empty
  after trimming. \<open>field_text\<close> reads a field as a string, the empty one when the
  record has no such field (or no string there).\<close>

definition field_text :: "row \<Rightarrow> string \<Rightarrow> string" where
  "field_text r key = (case map_of (cells r) key of Some (Some s) \<Rightarrow> s | _ \<Rightarrow> [])"

definition selection_rule :: "row \<Rightarrow> bool" where
  "selection_rule r =
     (strip (field_text r ''iso_country'') = ''US'' \<and>
      strip (field_text r ''icao_code'') \<noteq> [])"

subsection \<open>Concrete files\<close>

definition LF :: string where
  "LF = [CHR 0x0A]"

definition CRLF :: string where
  "CRLF = [CHR 0x0D, CHR 0x0A]"

definition example_output :: path where
  "example_output = Path [''data''] ''airports.csv''"

definition example_temp :: path where
  "example_temp = Path [''data''] ''airports.tmp.csv''"

text \<open>Values with blanks around them, a blank code and another country.\<close>

definition padded_raw :: bytes where
  "padded_raw =
     ''name,iso_country,icao_code'' @ LF @ ''A, US ,K1'' @ LF @ ''B,US,  '' @ LF @
     ''C,FR,K3'' @ LF"

text \<open>The rows A, B and C of the specification's example.\<close>

definition three_rows_raw :: bytes where
  "three_rows_raw =
     ''name,iso_country,icao_code'' @ LF @ ''A,US,K1'' @ LF @ ''B,FR,K2'' @ LF @
     ''C,US,'' @ LF"

text \<open>The header of the specification's example, and one row.\<close>

definition five_columns_raw :: bytes where
  "five_columns_raw =
     ''id,name,iso_country,icao_code,home_link'' @ LF @ ''1,A,US,K1,h'' @ LF"

text \<open>A line with one field more than the header has.\<close>

definition long_line_raw :: bytes where
  "long_line_raw = ''iso_country,icao_code'' @ LF @ ''US,KJFK,extra'' @ LF"

text \<open>A line with one field fewer than the header has.\<close>

definition short_line_raw :: bytes where
  "short_line_raw = ''name,iso_country,icao_code'' @ LF @ ''A,US'' @ LF"

text \<open>Three lines that all pass the selection rule, the second with one field more
  than the header has.\<close>

definition long_middle_raw :: bytes where
  "long_middle_raw =
     ''iso_country,icao_code'' @ LF @ ''US,K1'' @ LF @ ''US,K2,extra'' @ LF @ ''US,K3'' @ LF"

text \<open>A removed column, values with blanks around them, a blank code, and a long line
  that the rule does not select.\<close>

definition mixed_raw :: bytes where
  "mixed_raw =
     ''id,name,iso_country,icao_code'' @ LF @ ''1,A, US ,K1'' @ LF @ ''2,B,US,  '' @ LF @
     ''3,C,FR,K3,extra'' @ LF @ ''4,D,US,K4'' @ LF"

text \<open>A file whose first line is blank.\<close>

definition blank_header_raw :: bytes where
  "blank_header_raw = LF @ ''US,K1'' @ LF"

section \<open>Properties\<close>

subsection \<open>The loop and the two phases of filter\_csv\<close>

lemma strip_value_Inr: "strip_value v = Inr s \<Longrightarrow> \<exists>t. v = Some t \<and> s = strip t"
  by (auto simp: strip_value_def split: option.splits)

lemma row_get_text: "row_get r key = Some t \<Longrightarrow> strip t = strip (field_text r key)"
  by (auto simp: row_get_def field_text_def split: option.splits)

lemma row_selected_rule: "row_selected r = Inr keep \<Longrightarrow> keep = selection_rule r"
  unfolding row_selected_def selection_rule_def
  by (auto split: sum.splits dest!: strip_value_Inr dest: row_get_text)

lemma filter_loop_acc:
  "filter_loop rs acc = Inr kept \<Longrightarrow>
     kept = acc @ map filtered_row (filter selection_rule rs)"
proof (induction rs arbitrary: acc)
  case Nil
  then show ?case by simp
next
  case (Cons r rs)
  then obtain keep where k: "row_selected r = Inr keep"
    by (auto split: sum.splits)
  with Cons.prems have
    "filter_loop rs (if keep then acc @ [filtered_row r] else acc) = Inr kept"
    by simp
  from Cons.IH[OF this] row_selected_rule[OF k] show ?case by auto
qed

lemma filter_loop_rows: "filter_loop rs acc = Inr kept \<Longrightarrow> r \<in> set rs \<Longrightarrow> row_selected r = Inr (selection_rule r)"
proof (induction rs arbitrary: acc)
  case Nil
  then show ?case by simp
next
  case (Cons a rs)
  then obtain keep where k: "row_selected a = Inr keep"
    by (auto split: sum.splits)
  with Cons.prems have
    l: "filter_loop rs (if keep then acc @ [filtered_row a] else acc) = Inr kept"
    by simp
  show ?case
  proof (cases "r = a")
    case True
    with k row_selected_rule[OF k] show ?thesis by simp
  next
    case False
    with Cons.prems have "r \<in> set rs" by simp
    from Cons.IH[OF l this] show ?thesis .
  qed
qed

lemma filter_loop_total:
  "(\<And>r. r \<in> set rs \<Longrightarrow> \<exists>keep. row_selected r = Inr keep) \<Longrightarrow> \<exists>kept. filter_loop rs acc = Inr kept"
  by (induction rs arbitrary: acc) (auto split: sum.splits, fastforce)

lemma writerows_ok:
  "snd (writerows fieldnames ds) \<Longrightarrow> fst (writerows fieldnames ds) = map (dict_to_list fieldnames) ds"
  by (induction ds) (auto split: if_splits prod.splits)

lemma writerows_snd: "snd (writerows fieldnames ds) = (\<forall>d \<in> set ds. \<not> wrong_fields fieldnames d)"
  by (induction ds) (auto split: if_splits prod.splits)

lemma rfind_None: "rfind c s = None \<longleftrightarrow> c \<notin> set s"
  by (induction s) (auto split: option.splits)

lemma rfind_Some: "rfind c s = Some i \<Longrightarrow> i < length s \<and> s ! i = c \<and> c \<notin> set (drop (Suc i) s)"
  by (induction s arbitrary: i) (auto split: option.splits if_splits simp: rfind_None)

lemma suffix_of_shape:
  "suffix_of nm = [] \<or> (\<exists>i. i < length nm \<and> suffix_of nm = drop i nm \<and> nm ! i = CHR ''.'' \<and> CHR ''.'' \<notin> set (drop (Suc i) nm))"
  unfolding suffix_of_def by (auto split: option.splits dest: rfind_Some)

lemma tmp_csv_not_suffix: "suffix_of nm \<noteq> ''.tmp.csv''"
proof
  assume a: "suffix_of nm = ''.tmp.csv''"
  with suffix_of_shape[of nm] obtain i where
    i: "i < length nm" "drop i nm = ''.tmp.csv''" "CHR ''.'' \<notin> set (drop (Suc i) nm)"
    by auto
  have "drop (Suc i) nm = tl (drop i nm)" by (simp add: drop_Suc tl_drop)
  with i(2) have "drop (Suc i) nm = ''tmp.csv''" by simp
  with i(3) show False by simp
qed

lemma with_suffix_tmp:
  assumes "with_suffix p ''.tmp.csv'' = Inr t"
  shows "t \<noteq> p" and "parent t = parent p"
    and "name t = take (length (name p) - length (suffix_of (name p))) (name p) @ ''.tmp.csv''"
    and "name p \<noteq> []"
proof -
  from assms show "parent t = parent p" and "name p \<noteq> []"
    and n: "name t = take (length (name p) - length (suffix_of (name p))) (name p) @ ''.tmp.csv''"
    by (auto simp: with_suffix_def Let_def split: if_splits)
  show "t \<noteq> p"
  proof
    assume "t = p"
    with n have e: "name p = take (length (name p) - length (suffix_of (name p))) (name p) @ ''.tmp.csv''"
      by simp
    show False
    proof (cases "suffix_of (name p) = []")
      case True
      with e show False by simp
    next
      case False
      with suffix_of_shape[of "name p"] obtain i where
        i: "i < length (name p)" "suffix_of (name p) = drop i (name p)" by auto
      then have "length (name p) - length (suffix_of (name p)) = i" by simp
      with e have "name p = take i (name p) @ ''.tmp.csv''" by simp
      then have "drop i (name p) = drop i (take i (name p) @ ''.tmp.csv'')"
        by (rule arg_cong)
      also from i(1) have "\<dots> = ''.tmp.csv''" by simp
      finally have "drop i (name p) = ''.tmp.csv''" .
      with i(2) tmp_csv_not_suffix show False by simp
    qed
  qed
qed

lemma with_suffix_tmp_ok: "name p \<noteq> [] \<Longrightarrow> \<exists>t. with_suffix p ''.tmp.csv'' = Inr t"
  by (simp add: with_suffix_def Let_def)

lemma read_phase_lines:
  "rd raw = Inr (header # lines) \<Longrightarrow>
     read_phase rd raw =
       (case filter_loop (DictReader_rows header lines) [] of
          Inl e \<Rightarrow> Raised e
        | Inr filtered_data \<Rightarrow> Filtered (output_fieldnames header) filtered_data)"
  by (simp add: read_phase_def DictReader_fieldnames_def)

lemma read_phase_Filtered:
  assumes "rd raw = Inr (header # lines)" and "read_phase rd raw = Filtered out_fields filtered_data"
  shows "out_fields = output_fieldnames header"
    and "filtered_data = map filtered_row (filter selection_rule (DictReader_rows header lines))"
    and "filter_loop (DictReader_rows header lines) [] = Inr filtered_data"
proof -
  from assms show "out_fields = output_fieldnames header"
    and l: "filter_loop (DictReader_rows header lines) [] = Inr filtered_data"
    by (auto simp: read_phase_lines split: sum.splits)
  from filter_loop_acc[OF l]
  show "filtered_data = map filtered_row (filter selection_rule (DictReader_rows header lines))"
    by simp
qed

lemma filter_csv_Filtered:
  "files input_path = Some raw \<Longrightarrow> read_phase rd raw = Filtered out_fields filtered_data \<Longrightarrow>
     filter_csv rd wr input_path output_path files =
       (snd (writerows out_fields filtered_data),
        files(output_path \<mapsto> render wr (out_fields # fst (writerows out_fields filtered_data))))"
  by (simp add: filter_csv_def split: prod.splits)

lemma filter_csv_read_failure:
  "files input_path = Some raw \<Longrightarrow> read_phase rd raw = NoHeaders \<or> read_phase rd raw = Raised e \<Longrightarrow>
     filter_csv rd wr input_path output_path files = (False, files)"
  by (auto simp: filter_csv_def)

lemma filter_csv_success:
  assumes "files input_path = Some raw" and "fst (filter_csv rd wr input_path output_path files)"
  obtains out_fields filtered_data where
    "read_phase rd raw = Filtered out_fields filtered_data"
    "snd (writerows out_fields filtered_data)"
    "snd (filter_csv rd wr input_path output_path files) =
       files(output_path \<mapsto> render wr (out_fields # map (dict_to_list out_fields) filtered_data))"
proof (cases "read_phase rd raw")
  case NoHeaders
  with assms filter_csv_read_failure[of files input_path raw rd] show ?thesis by simp
next
  case (Raised e)
  with assms filter_csv_read_failure[of files input_path raw rd e] show ?thesis by simp
next
  case (Filtered out_fields filtered_data)
  from filter_csv_Filtered[where files=files and input_path=input_path, OF assms(1) this] assms(2)
  have ok: "snd (writerows out_fields filtered_data)"
    and "snd (filter_csv rd wr input_path output_path files) =
       files(output_path \<mapsto> render wr (out_fields # fst (writerows out_fields filtered_data)))"
    by simp_all
  with writerows_ok[OF ok] Filtered that show ?thesis by simp
qed

lemma output_fieldnames_set: "set (output_fieldnames header) = set header - columns_to_remove"
  by (auto simp: output_fieldnames_def)

lemma output_fieldnames_subseq: "subseq (output_fieldnames header) header"
  by (simp add: output_fieldnames_def)

lemma output_fieldnames_greatest:
  assumes "subseq fields header" and "set fields \<inter> columns_to_remove = {}"
  shows "subseq fields (output_fieldnames header)"
proof -
  from assms(2) have "filter (\<lambda>f. f \<notin> columns_to_remove) fields = fields"
    by (auto simp: filter_id_conv)
  moreover from assms(1)
  have "subseq (filter (\<lambda>f. f \<notin> columns_to_remove) fields) (filter (\<lambda>f. f \<notin> columns_to_remove) header)"
    by (rule subseq_filter)
  ultimately show ?thesis by (simp add: output_fieldnames_def)
qed

lemma filter_csv_outcome:
  assumes "files input_path = Some raw" and "rd raw = Inr (header # lines)"
  shows "(snd (filter_csv rd wr input_path output_path files) = files \<and>
          \<not> fst (filter_csv rd wr input_path output_path files)) \<or>
         (\<exists>data. snd (filter_csv rd wr input_path output_path files) =
            files(output_path \<mapsto> render wr (output_fieldnames header # data)))"
proof (cases "read_phase rd raw")
  case NoHeaders
  with filter_csv_read_failure[where files=files and input_path=input_path, OF assms(1)]
  show ?thesis by simp
next
  case (Raised e)
  with filter_csv_read_failure[where files=files and input_path=input_path and e=e, OF assms(1)]
  show ?thesis by simp
next
  case (Filtered out_fields filtered_data)
  from read_phase_Filtered(1)[OF assms(2) this]
    filter_csv_Filtered[where files=files and input_path=input_path, OF assms(1) Filtered]
  show ?thesis by auto
qed

subsection \<open>When filter\_csv succeeds\<close>

text \<open>The keys of a record are field names of the header, so a projected record has a
  field the writer does not know exactly when it carries surplus fields.\<close>

lemma dict_set_keys: "fst ` set (dict_set k v d) = insert k (fst ` set d)"
  by (induction d) auto

lemma foldl_dict_set_keys:
  "fst ` set (foldl (\<lambda>d kv. dict_set (fst kv) (snd kv) d) d kvs) = fst ` set d \<union> fst ` set kvs"
  by (induction kvs arbitrary: d) (auto simp: dict_set_keys)

lemma foldl_dict_set_None_keys:
  "fst ` set (foldl (\<lambda>d key. dict_set key None d) d ks) = fst ` set d \<union> set ks"
  by (induction ks arbitrary: d) (auto simp: dict_set_keys)

lemma DictReader_next_keys: "fst ` set (cells (DictReader_next fieldnames line)) \<subseteq> set fieldnames"
proof -
  have z: "fst ` set (zip fieldnames (map Some line)) \<subseteq> set fieldnames"
    by (auto dest: set_zip_leftD)
  have d: "set (drop (length line) fieldnames) \<subseteq> set fieldnames"
    by (rule set_drop_subset)
  from z d show ?thesis
    by (auto simp: DictReader_next_def Let_def dict_of_def foldl_dict_set_keys
        foldl_dict_set_None_keys)
qed

lemma DictReader_rows_keys:
  "r \<in> set (DictReader_rows fieldnames lines) \<Longrightarrow> fst ` set (cells r) \<subseteq> set fieldnames"
  using DictReader_next_keys by (auto simp: DictReader_rows_def)

lemma filtered_row_fields:
  assumes "fst ` set (cells r) \<subseteq> set fieldnames"
  shows "wrong_fields (output_fieldnames fieldnames) (filtered_row r) = (overflow r \<noteq> None)"
  using assms by (auto simp: wrong_fields_def filtered_row_def output_fieldnames_def)

lemma row_selected_Inr:
  "(\<exists>keep. row_selected r = Inr keep) =
     (row_get r ''iso_country'' \<noteq> None \<and> row_get r ''icao_code'' \<noteq> None)"
  by (auto simp: row_selected_def strip_value_def split: sum.splits option.splits)

lemma writerows_all:
  "\<forall>d \<in> set ds. \<not> wrong_fields fieldnames d \<Longrightarrow>
     writerows fieldnames ds = (map (dict_to_list fieldnames) ds, True)"
  by (induction ds) auto

lemma filter_loop_complete:
  assumes "\<forall>r \<in> set rs. row_get r ''iso_country'' \<noteq> None \<and> row_get r ''icao_code'' \<noteq> None"
  shows "filter_loop rs acc = Inr (acc @ map filtered_row (filter selection_rule rs))"
proof -
  from assms have "\<And>r. r \<in> set rs \<Longrightarrow> \<exists>keep. row_selected r = Inr keep"
    by (simp add: row_selected_Inr)
  from filter_loop_total[OF this] obtain kept where k: "filter_loop rs acc = Inr kept"
    by blast
  with filter_loop_acc[OF k] show ?thesis by simp
qed

subsection \<open>Selection\<close>

text \<open>
  C2, as the code has it. For a raw file with a header line, \<open>filter_csv\<close> succeeds
  exactly when no record has \<open>None\<close> under \<open>iso_country\<close> or \<open>icao_code\<close> (no line
  is too short to reach those columns) and no record that passes the rule has surplus
  fields (no such line is longer than the header). When it succeeds, the output file
  consists of the projected header and, line for line, of the projected records that
  satisfy the rule (\<open>iso_country\<close> equal to \<open>US\<close> after trimming, \<open>icao_code\<close>
  non-empty after trimming), none dropped and none added, and the test the loop made
  for each record is the rule.
\<close>

theorem filter_csv_selection:
  assumes "files input_path = Some raw"
    and "rd raw = Inr (header # lines)"
  shows "fst (filter_csv rd wr input_path output_path files) =
           ((\<forall>r \<in> set (DictReader_rows header lines).
               row_get r ''iso_country'' \<noteq> None \<and> row_get r ''icao_code'' \<noteq> None) \<and>
            (\<forall>r \<in> set (DictReader_rows header lines).
               selection_rule r \<longrightarrow> overflow r = None)) \<and>
         (fst (filter_csv rd wr input_path output_path files) \<longrightarrow>
            snd (filter_csv rd wr input_path output_path files) =
              files(output_path \<mapsto>
                render wr (output_fieldnames header #
                  map (\<lambda>r. dict_to_list (output_fieldnames header) (filtered_row r))
                    (filter selection_rule (DictReader_rows header lines)))) \<and>
            (\<forall>r \<in> set (DictReader_rows header lines).
               row_selected r = Inr (selection_rule r)))"
proof -
  let ?rows = "DictReader_rows header lines"
  let ?ofn = "output_fieldnames header"
  let ?kept = "map filtered_row (filter selection_rule ?rows)"
  let ?strings = "\<forall>r \<in> set ?rows.
     row_get r ''iso_country'' \<noteq> None \<and> row_get r ''icao_code'' \<noteq> None"
  let ?fits = "\<forall>r \<in> set ?rows. selection_rule r \<longrightarrow> overflow r = None"
  let ?call = "filter_csv rd wr input_path output_path files"
  have w: "(\<forall>d \<in> set ?kept. \<not> wrong_fields ?ofn d) = ?fits"
    using filtered_row_fields[OF DictReader_rows_keys, of _ header lines] by auto
  have suff: "fst ?call \<and> snd ?call =
      files(output_path \<mapsto> render wr (?ofn #
        map (\<lambda>r. dict_to_list ?ofn (filtered_row r)) (filter selection_rule ?rows))) \<and>
      (\<forall>r \<in> set ?rows. row_selected r = Inr (selection_rule r))"
    if s: ?strings and f: ?fits
  proof -
    from filter_loop_complete[OF s, of "[]"]
    have l: "filter_loop ?rows [] = Inr ?kept" by simp
    from filter_loop_rows[OF l]
    have t: "\<forall>r \<in> set ?rows. row_selected r = Inr (selection_rule r)" by blast
    from l assms(2) have r: "read_phase rd raw = Filtered ?ofn ?kept"
      by (simp add: read_phase_lines)
    from f w have "writerows ?ofn ?kept = (map (dict_to_list ?ofn) ?kept, True)"
      by (intro writerows_all) simp
    with filter_csv_Filtered[where files = files and input_path = input_path and rd = rd
        and raw = raw, OF assms(1) r] t
    show ?thesis by (simp add: comp_def)
  qed
  have nec: "?strings \<and> ?fits" if ok: "fst ?call"
  proof -
    from filter_csv_success[where files = files and input_path = input_path and rd = rd
        and raw = raw, OF assms(1) ok]
    obtain out_fields filtered_data where
      r: "read_phase rd raw = Filtered out_fields filtered_data"
      and ws: "snd (writerows out_fields filtered_data)"
      by blast
    note f = read_phase_Filtered[OF assms(2) r]
    from filter_loop_rows[OF f(3)] have ?strings
      using row_selected_Inr by blast
    moreover from ws f(1,2) w have ?fits
      by (simp add: writerows_snd)
    ultimately show ?thesis by simp
  qed
  from suff nec show ?thesis by blast
qed

theorem filter_csv_selection_witness:
  "[example_temp \<mapsto> mixed_raw] example_temp = Some mixed_raw \<and>
   plain_reader mixed_raw =
     Inr ([''id'', ''name'', ''iso_country'', ''icao_code''] #
          [[''1'', ''A'', '' US '', ''K1''], [''2'', ''B'', ''US'', ''  ''],
           [''3'', ''C'', ''FR'', ''K3'', ''extra''], [''4'', ''D'', ''US'', ''K4'']]) \<and>
   fst (filter_csv plain_reader plain_writerow example_temp example_output
          [example_temp \<mapsto> mixed_raw]) \<and>
   snd (filter_csv plain_reader plain_writerow example_temp example_output
          [example_temp \<mapsto> mixed_raw]) example_output =
     Some (''name,iso_country,icao_code'' @ CRLF @ ''A, US ,K1'' @ CRLF @ ''D,US,K4'' @ CRLF)"
proof -
  let ?header = "[''id'', ''name'', ''iso_country'', ''icao_code'']"
  let ?lines = "[[''1'', ''A'', '' US '', ''K1''], [''2'', ''B'', ''US'', ''  ''],
           [''3'', ''C'', ''FR'', ''K3'', ''extra''], [''4'', ''D'', ''US'', ''K4'']]"
  have h1: "[example_temp \<mapsto> mixed_raw] example_temp = Some mixed_raw"
    by simp
  have h2: "plain_reader mixed_raw = Inr (?header # ?lines)"
    by code_simp
  have s: "\<forall>r \<in> set (DictReader_rows ?header ?lines).
     row_get r ''iso_country'' \<noteq> None \<and> row_get r ''icao_code'' \<noteq> None"
    by code_simp
  have f: "\<forall>r \<in> set (DictReader_rows ?header ?lines). selection_rule r \<longrightarrow> overflow r = None"
    by code_simp
  have v: "render plain_writerow (output_fieldnames ?header #
             map (\<lambda>r. dict_to_list (output_fieldnames ?header) (filtered_row r))
               (filter selection_rule (DictReader_rows ?header ?lines)))
           = ''name,iso_country,icao_code'' @ CRLF @ ''A, US ,K1'' @ CRLF @ ''D,US,K4'' @ CRLF"
    by code_simp
  from filter_csv_selection[where files = "[example_temp \<mapsto> mixed_raw]"
      and input_path = example_temp and rd = plain_reader and raw = mixed_raw
      and wr = plain_writerow and output_path = example_output, OF h1 h2] s f
  have "fst (filter_csv plain_reader plain_writerow example_temp example_output
          [example_temp \<mapsto> mixed_raw])"
    and "snd (filter_csv plain_reader plain_writerow example_temp example_output
          [example_temp \<mapsto> mixed_raw]) =
       [example_temp \<mapsto> mixed_raw](example_output \<mapsto>
         render plain_writerow (output_fieldnames ?header #
             map (\<lambda>r. dict_to_list (output_fieldnames ?header) (filtered_row r))
               (filter selection_rule (DictReader_rows ?header ?lines))))"
    by blast+
  with v h1 h2 show ?thesis by simp
qed

text \<open>
  C2 as stated speaks of every raw record of every file. In the file below all three
  records pass the rule, and the second comes from a line longer than the header:
  \<open>writerows\<close> raises on it, \<open>filter_csv\<close> returns \<open>False\<close>, and the output file
  holds the header and the first record only. The second and the third record match
  both conditions and are dropped.
\<close>

theorem filter_csv_long_line_counterexample:
  "plain_reader long_middle_raw =
     Inr [[''iso_country'', ''icao_code''],
          [''US'', ''K1''], [''US'', ''K2'', ''extra''], [''US'', ''K3'']] \<and>
   map selection_rule
     (DictReader_rows [''iso_country'', ''icao_code'']
        [[''US'', ''K1''], [''US'', ''K2'', ''extra''], [''US'', ''K3'']]) = [True, True, True] \<and>
   fst (filter_csv plain_reader plain_writerow example_temp example_output
          [example_temp \<mapsto> long_middle_raw]) = False \<and>
   snd (filter_csv plain_reader plain_writerow example_temp example_output
          [example_temp \<mapsto> long_middle_raw]) example_output =
     Some (''iso_country,icao_code'' @ CRLF @ ''US,K1'' @ CRLF)"
  by code_simp

subsection \<open>Projection of the header\<close>

text \<open>
  C3. The header of the file written by \<open>filter_csv\<close> equals the original header with
  exactly the fields of the removal set deleted, the others in their original relative
  order. For a raw file with header line \<open>header\<close>: either \<open>filter_csv\<close> fails
  without touching any file, or it writes the output file and the first line written
  is \<open>output_fieldnames header\<close>. That list has the fields of the header outside the
  removal set, is a subsequence of the header, and every subsequence of the header that
  avoids the removal set is a subsequence of it. On the header
  \<open>id, name, iso_country, icao_code, home_link\<close> it is
  \<open>name, iso_country, icao_code\<close>.
\<close>

theorem filter_csv_header:
  assumes "files input_path = Some raw" and "rd raw = Inr (header # lines)"
  shows "((snd (filter_csv rd wr input_path output_path files) = files \<and>
           \<not> fst (filter_csv rd wr input_path output_path files)) \<or>
          (\<exists>data. snd (filter_csv rd wr input_path output_path files) =
             files(output_path \<mapsto> render wr (output_fieldnames header # data)))) \<and>
         set (output_fieldnames header) = set header - columns_to_remove \<and>
         subseq (output_fieldnames header) header \<and>
         (\<forall>fields. subseq fields header \<and> set fields \<inter> columns_to_remove = {} \<longrightarrow>
            subseq fields (output_fieldnames header)) \<and>
         output_fieldnames [''id'', ''name'', ''iso_country'', ''icao_code'', ''home_link''] =
           [''name'', ''iso_country'', ''icao_code'']"
proof -
  have "output_fieldnames [''id'', ''name'', ''iso_country'', ''icao_code'', ''home_link''] =
           [''name'', ''iso_country'', ''icao_code'']"
    by (simp add: output_fieldnames_def columns_to_remove_def)
  with filter_csv_outcome[where files=files and input_path=input_path and rd=rd and raw=raw, OF assms]
    output_fieldnames_set output_fieldnames_subseq output_fieldnames_greatest
  show ?thesis by blast
qed

theorem filter_csv_header_witness:
  "[example_temp \<mapsto> five_columns_raw] example_temp = Some five_columns_raw \<and>
   plain_reader five_columns_raw =
     Inr ([''id'', ''name'', ''iso_country'', ''icao_code'', ''home_link''] #
          [[''1'', ''A'', ''US'', ''K1'', ''h'']]) \<and>
   fst (filter_csv plain_reader plain_writerow example_temp example_output
          [example_temp \<mapsto> five_columns_raw]) \<and>
   snd (filter_csv plain_reader plain_writerow example_temp example_output
          [example_temp \<mapsto> five_columns_raw]) example_output =
     Some (''name,iso_country,icao_code'' @ CRLF @ ''A,US,K1'' @ CRLF) \<and>
   subseq (output_fieldnames [''id'', ''name'', ''iso_country'', ''icao_code'', ''home_link''])
     [''id'', ''name'', ''iso_country'', ''icao_code'', ''home_link'']"
proof -
  have h1: "[example_temp \<mapsto> five_columns_raw] example_temp = Some five_columns_raw"
    by simp
  have h2: "plain_reader five_columns_raw =
     Inr ([''id'', ''name'', ''iso_country'', ''icao_code'', ''home_link''] #
          [[''1'', ''A'', ''US'', ''K1'', ''h'']])"
    by code_simp
  have v1: "fst (filter_csv plain_reader plain_writerow example_temp example_output
          [example_temp \<mapsto> five_columns_raw])"
    by code_simp
  have v2: "snd (filter_csv plain_reader plain_writerow example_temp example_output
          [example_temp \<mapsto> five_columns_raw]) example_output =
     Some (''name,iso_country,icao_code'' @ CRLF @ ''A,US,K1'' @ CRLF)"
    by code_simp
  from filter_csv_header[where files = "[example_temp \<mapsto> five_columns_raw]"
      and input_path = example_temp and rd = plain_reader and raw = five_columns_raw,
      OF h1 h2] h1 h2 v1 v2
  show ?thesis by blast
qed

subsection \<open>Order of the surviving records\<close>

text \<open>
  C4. Among the records that pass the selection rule, \<open>filter_csv\<close> keeps the order
  of the raw file: the records behind the data lines of the output, read top to
  bottom, are a subsequence of the records of the raw file, and each satisfies the
  rule. The rows A (US, K1), B (FR, K2) and C (US, empty code) yield exactly A.
\<close>

theorem filter_csv_order:
  assumes "files input_path = Some raw"
    and "rd raw = Inr (header # lines)"
    and "fst (filter_csv rd wr input_path output_path files)"
  shows "\<exists>kept. subseq kept (DictReader_rows header lines) \<and>
           (\<forall>r \<in> set kept. selection_rule r) \<and>
           snd (filter_csv rd wr input_path output_path files) output_path =
             Some (render wr (output_fieldnames header #
               map (\<lambda>r. dict_to_list (output_fieldnames header) (filtered_row r)) kept))"
proof -
  from filter_csv_success[where files=files and input_path=input_path, OF assms(1,3)]
  obtain out_fields filtered_data where
    r: "read_phase rd raw = Filtered out_fields filtered_data"
    and s: "snd (filter_csv rd wr input_path output_path files) =
       files(output_path \<mapsto> render wr (out_fields # map (dict_to_list out_fields) filtered_data))"
    by blast
  note f = read_phase_Filtered[OF assms(2) r]
  let ?kept = "filter selection_rule (DictReader_rows header lines)"
  have "subseq ?kept (DictReader_rows header lines)" by simp
  moreover have "\<forall>r \<in> set ?kept. selection_rule r" by simp
  moreover from s f(1,2)
  have "snd (filter_csv rd wr input_path output_path files) output_path =
             Some (render wr (output_fieldnames header #
               map (\<lambda>r. dict_to_list (output_fieldnames header) (filtered_row r)) ?kept))"
    by (simp add: comp_def)
  ultimately show ?thesis by blast
qed

theorem filter_csv_order_witness:
  "[example_temp \<mapsto> three_rows_raw] example_temp = Some three_rows_raw \<and>
   plain_reader three_rows_raw =
     Inr ([''name'', ''iso_country'', ''icao_code''] #
          [[''A'', ''US'', ''K1''], [''B'', ''FR'', ''K2''], [''C'', ''US'', '''']]) \<and>
   fst (filter_csv plain_reader plain_writerow example_temp example_output
          [example_temp \<mapsto> three_rows_raw]) \<and>
   (\<exists>kept. subseq kept (DictReader_rows [''name'', ''iso_country'', ''icao_code'']
                 [[''A'', ''US'', ''K1''], [''B'', ''FR'', ''K2''], [''C'', ''US'', '''']]) \<and>
      (\<forall>r \<in> set kept. selection_rule r) \<and>
      snd (filter_csv plain_reader plain_writerow example_temp example_output
             [example_temp \<mapsto> three_rows_raw]) example_output =
        Some (render plain_writerow (output_fieldnames [''name'', ''iso_country'', ''icao_code''] #
          map (\<lambda>r. dict_to_list (output_fieldnames [''name'', ''iso_country'', ''icao_code''])
                     (filtered_row r)) kept))) \<and>
   snd (filter_csv plain_reader plain_writerow example_temp example_output
          [example_temp \<mapsto> three_rows_raw]) example_output =
     Some (''name,iso_country,icao_code'' @ CRLF @ ''A,US,K1'' @ CRLF)"
proof -
  have h1: "[example_temp \<mapsto> three_rows_raw] example_temp = Some three_rows_raw"
    by simp
  have h2: "plain_reader three_rows_raw =
     Inr ([''name'', ''iso_country'', ''icao_code''] #
          [[''A'', ''US'', ''K1''], [''B'', ''FR'', ''K2''], [''C'', ''US'', '''']])"
    by code_simp
  have h3: "fst (filter_csv plain_reader plain_writerow example_temp example_output
          [example_temp \<mapsto> three_rows_raw])"
    by code_simp
  have v: "snd (filter_csv plain_reader plain_writerow example_temp example_output
          [example_temp \<mapsto> three_rows_raw]) example_output =
     Some (''name,iso_country,icao_code'' @ CRLF @ ''A,US,K1'' @ CRLF)"
    by code_simp
  from filter_csv_order[where files = "[example_temp \<mapsto> three_rows_raw]"
      and input_path = example_temp and rd = plain_reader and raw = three_rows_raw,
      OF h1 h2 h3] h1 h2 h3 v
  show ?thesis by blast
qed

subsection \<open>A missing header\<close>

text \<open>
  C7, as the code has it. When the reader finds no line at all in the raw file, there
  is no header: \<open>filter_csv\<close> returns \<open>False\<close> and leaves every file as it was. The
  result is the plain \<open>False\<close> of every other failure; the code has no error classes.
\<close>

theorem filter_csv_no_header:
  assumes "files input_path = Some raw" and "rd raw = Inr []"
  shows "read_phase rd raw = NoHeaders \<and>
         filter_csv rd wr input_path output_path files = (False, files)"
proof -
  from assms(2) have "read_phase rd raw = NoHeaders"
    by (simp add: read_phase_def DictReader_fieldnames_def)
  with filter_csv_read_failure[where files=files and input_path=input_path and rd=rd and raw=raw,
      OF assms(1)]
  show ?thesis by simp
qed

theorem filter_csv_no_header_witness:
  "[example_temp \<mapsto> []] example_temp = Some [] \<and> plain_reader [] = Inr [] \<and>
   read_phase plain_reader [] = NoHeaders \<and>
   filter_csv plain_reader plain_writerow example_temp example_output [example_temp \<mapsto> []] =
     (False, [example_temp \<mapsto> []])"
proof -
  have h1: "[example_temp \<mapsto> []] example_temp = Some []" by simp
  have h2: "plain_reader [] = Inr []" by code_simp
  from filter_csv_no_header[where files = "[example_temp \<mapsto> []]" and input_path = example_temp
      and rd = plain_reader and raw = "[]", OF h1 h2] h1 h2
  show ?thesis by simp
qed

text \<open>
  C7 as stated also covers an empty header. A raw file whose first line is blank has the
  empty list as its field names, which is not \<open>None\<close>: \<open>filter_csv\<close> succeeds and
  writes an output file holding one empty line.
\<close>

theorem filter_csv_blank_header_counterexample:
  "plain_reader blank_header_raw = Inr [[], [''US'', ''K1'']] \<and>
   DictReader_fieldnames [[], [''US'', ''K1'']] = Some [] \<and>
   fst (filter_csv plain_reader plain_writerow example_temp example_output
          [example_temp \<mapsto> blank_header_raw]) \<and>
   snd (filter_csv plain_reader plain_writerow example_temp example_output
          [example_temp \<mapsto> blank_header_raw]) example_output = Some CRLF"
  by code_simp

subsection \<open>A record without one of the two fields\<close>

text \<open>
  C10. For a record in which the key \<open>iso_country\<close> or the key \<open>icao_code\<close> is
  absent, the lookup of that key yields the empty string and trimming it raises
  nothing; the record is never selected, and it adds nothing to the filtered rows.
  When neither of the two values read is \<open>None\<close>, the test of the record is
  \<open>False\<close> (a \<open>None\<close> value under the other key, which a short line produces, still
  raises \<open>AttributeError\<close>).
\<close>

theorem absent_field_reads_empty:
  assumes "key = ''iso_country'' \<or> key = ''icao_code''"
    and "map_of (cells r) key = None"
  shows "row_get r key = Some [] \<and>
         strip_value (row_get r key) = Inr [] \<and>
         row_selected r \<noteq> Inr True \<and>
         (row_get r ''iso_country'' \<noteq> None \<and> row_get r ''icao_code'' \<noteq> None \<longrightarrow>
            row_selected r = Inr False) \<and>
         (\<forall>before after acc kept.
            filter_loop (before @ r # after) acc = Inr kept \<longrightarrow>
            kept = acc @ map filtered_row (filter selection_rule (before @ after)))"
proof -
  from assms(2) have g: "row_get r key = Some []"
    by (simp add: row_get_def)
  have s: "strip_value (Some []) = Inr []"
    by (simp add: strip_value_def strip_def)
  from g s assms(1) have n: "row_selected r \<noteq> Inr True"
    by (auto simp: row_selected_def split: sum.splits)
  from g s assms(1)
  have t: "row_get r ''iso_country'' \<noteq> None \<and> row_get r ''icao_code'' \<noteq> None \<longrightarrow>
            row_selected r = Inr False"
    by (auto simp: row_selected_def strip_value_def split: sum.splits option.splits)
  from assms have ns: "\<not> selection_rule r"
    by (auto simp: selection_rule_def field_text_def strip_def)
  have "\<forall>before after acc kept.
            filter_loop (before @ r # after) acc = Inr kept \<longrightarrow>
            kept = acc @ map filtered_row (filter selection_rule (before @ after))"
    using filter_loop_acc ns by fastforce
  with g s n t show ?thesis by simp
qed

theorem absent_field_reads_empty_witness:
  "map_of (cells (Row [(''name'', Some ''A''), (''iso_country'', Some ''US'')] None)) ''icao_code'' = None \<and>
   row_get (Row [(''name'', Some ''A''), (''iso_country'', Some ''US'')] None) ''icao_code'' = Some [] \<and>
   row_selected (Row [(''name'', Some ''A''), (''iso_country'', Some ''US'')] None) = Inr False"
proof -
  have h: "map_of (cells (Row [(''name'', Some ''A''), (''iso_country'', Some ''US'')] None)) ''icao_code'' = None"
    by simp
  have v: "row_get (Row [(''name'', Some ''A''), (''iso_country'', Some ''US'')] None) ''iso_country'' \<noteq> None"
    by (simp add: row_get_def)
  from absent_field_reads_empty[where key = "''icao_code''", OF _ h] h v
  show ?thesis by simp
qed

subsection \<open>One cycle, case by case\<close>

text \<open>What \<open>run_once\<close> returns and leaves behind, for each way a cycle can go.\<close>

lemma unlink_if_exists_upd: "unlink_if_exists p files = files(p := None)"
  by (auto simp: unlink_if_exists_def)

lemma run_once_path_error:
  "with_suffix output_path ''.tmp.csv'' = Inl e \<Longrightarrow>
     run_once rd wr resp output_path files = (Inl e, files)"
  by (simp add: run_once_def)

lemma run_once_request_failed:
  "with_suffix output_path ''.tmp.csv'' = Inr temp_path \<Longrightarrow>
     run_once rd wr RequestFailed output_path files = (Inr False, files)"
  by (simp add: run_once_def download_file_def)

lemma run_once_stream_broken:
  "with_suffix output_path ''.tmp.csv'' = Inr temp_path \<Longrightarrow>
     run_once rd wr (Body chunks True) output_path files =
       (Inr False, files(temp_path \<mapsto> concat (filter (\<lambda>chunk. chunk \<noteq> []) chunks)))"
  by (simp add: run_once_def download_file_def)

lemma run_once_read_failure:
  assumes "with_suffix output_path ''.tmp.csv'' = Inr temp_path"
    and "read_phase rd (concat (filter (\<lambda>chunk. chunk \<noteq> []) chunks)) = NoHeaders \<or>
         read_phase rd (concat (filter (\<lambda>chunk. chunk \<noteq> []) chunks)) = Raised e"
  shows "run_once rd wr (Body chunks False) output_path files = (Inr False, files(temp_path := None))"
proof -
  let ?raw = "concat (filter (\<lambda>chunk. chunk \<noteq> []) chunks)"
  let ?files1 = "files(temp_path \<mapsto> ?raw)"
  have "?files1 temp_path = Some ?raw" by simp
  from filter_csv_read_failure[where files = ?files1 and input_path = temp_path and rd = rd
      and raw = ?raw, OF this assms(2)]
  have "filter_csv rd wr temp_path output_path ?files1 = (False, ?files1)" .
  with assms(1) show ?thesis
    by (simp add: run_once_def download_file_def unlink_if_exists_upd)
qed

lemma run_once_filtered:
  assumes "with_suffix output_path ''.tmp.csv'' = Inr temp_path"
    and "read_phase rd (concat (filter (\<lambda>chunk. chunk \<noteq> []) chunks)) = Filtered out_fields filtered_data"
  shows "run_once rd wr (Body chunks False) output_path files =
           (Inr (snd (writerows out_fields filtered_data)),
            (files(output_path \<mapsto> render wr (out_fields # fst (writerows out_fields filtered_data))))
              (temp_path := None))"
proof -
  let ?raw = "concat (filter (\<lambda>chunk. chunk \<noteq> []) chunks)"
  let ?files1 = "files(temp_path \<mapsto> ?raw)"
  let ?text = "render wr (out_fields # fst (writerows out_fields filtered_data))"
  have "?files1 temp_path = Some ?raw" by simp
  from filter_csv_Filtered[where files = ?files1 and input_path = temp_path and rd = rd
      and raw = ?raw, OF this assms(2)]
  have f: "filter_csv rd wr temp_path output_path ?files1 =
        (snd (writerows out_fields filtered_data), ?files1(output_path \<mapsto> ?text))" .
  have "(?files1(output_path \<mapsto> ?text))(temp_path := None) =
        (files(output_path \<mapsto> ?text))(temp_path := None)"
    by (rule ext) simp
  with assms(1) f show ?thesis
    by (simp add: run_once_def download_file_def unlink_if_exists_upd)
qed

lemma run_once_frame:
  assumes "with_suffix output_path ''.tmp.csv'' = Inr temp_path"
    and "p \<noteq> temp_path" and "p \<noteq> output_path"
  shows "snd (run_once rd wr resp output_path files) p = files p"
proof (cases resp)
  case RequestFailed
  with assms show ?thesis by (simp add: run_once_request_failed)
next
  case (Body chunks broken)
  show ?thesis
  proof (cases broken)
    case True
    with Body assms show ?thesis by (simp add: run_once_stream_broken)
  next
    case False
    show ?thesis
    proof (cases "read_phase rd (concat (filter (\<lambda>chunk. chunk \<noteq> []) chunks))")
      case NoHeaders
      with Body False assms(2)
        run_once_read_failure[where rd = rd and chunks = chunks, OF assms(1)]
      show ?thesis by simp
    next
      case (Raised e)
      with Body False assms(2)
        run_once_read_failure[where rd = rd and chunks = chunks and e = e, OF assms(1)]
      show ?thesis by simp
    next
      case (Filtered out_fields filtered_data)
      with Body False assms(2,3)
        run_once_filtered[where rd = rd and chunks = chunks, OF assms(1) Filtered]
      show ?thesis by simp
    qed
  qed
qed

subsection \<open>The published file after a failed cycle\<close>

text \<open>
  C1, as the code has it. If the fetch fails (the request fails, or the stream breaks
  after some chunks), or the filter fails while it reads the downloaded file (the
  reader raises, there is no header, or a value to trim is \<open>None\<close>), then the cycle
  does not succeed and the file at the output path holds after the cycle what it held
  before. The output file is opened only after the read phase, so these failures come
  before anything is written to it.
\<close>

theorem run_once_failure_before_write:
  assumes "resp = RequestFailed \<or> resp = Body chunks True \<or>
           (resp = Body chunks False \<and>
            (read_phase rd (concat (filter (\<lambda>chunk. chunk \<noteq> []) chunks)) = NoHeaders \<or>
             read_phase rd (concat (filter (\<lambda>chunk. chunk \<noteq> []) chunks)) = Raised e))"
  shows "snd (run_once rd wr resp output_path files) output_path = files output_path \<and>
         fst (run_once rd wr resp output_path files) \<noteq> Inr True"
proof (cases "with_suffix output_path ''.tmp.csv''")
  case (Inl e)
  then show ?thesis by (simp add: run_once_path_error)
next
  case (Inr temp_path)
  note t = with_suffix_tmp(1)[OF Inr]
  from assms consider
    (request) "resp = RequestFailed"
    | (stream) "resp = Body chunks True"
    | (read) "resp = Body chunks False"
        "read_phase rd (concat (filter (\<lambda>chunk. chunk \<noteq> []) chunks)) = NoHeaders \<or>
         read_phase rd (concat (filter (\<lambda>chunk. chunk \<noteq> []) chunks)) = Raised e"
    by blast
  then show ?thesis
  proof cases
    case request
    with Inr show ?thesis by (simp add: run_once_request_failed)
  next
    case stream
    with Inr t show ?thesis by (simp add: run_once_stream_broken)
  next
    case read
    with t run_once_read_failure[where rd = rd and chunks = chunks and e = e, OF Inr read(2)]
    show ?thesis by simp
  qed
qed

theorem run_once_failure_before_write_witness:
  "read_phase plain_reader (concat (filter (\<lambda>chunk. chunk \<noteq> []) [short_line_raw])) =
     Raised AttributeError \<and>
   fst (run_once plain_reader plain_writerow (Body [short_line_raw] False) example_output
          [example_output \<mapsto> ''OLD'']) = Inr False \<and>
   snd (run_once plain_reader plain_writerow (Body [short_line_raw] False) example_output
          [example_output \<mapsto> ''OLD'']) example_output = Some ''OLD''"
proof -
  have h: "read_phase plain_reader (concat (filter (\<lambda>chunk. chunk \<noteq> []) [short_line_raw])) =
     Raised AttributeError"
    by code_simp
  have v: "fst (run_once plain_reader plain_writerow (Body [short_line_raw] False) example_output
          [example_output \<mapsto> ''OLD'']) = Inr False"
    by code_simp
  from run_once_failure_before_write[where resp = "Body [short_line_raw] False"
      and chunks = "[short_line_raw]" and rd = plain_reader and e = AttributeError
      and wr = plain_writerow and output_path = example_output
      and files = "[example_output \<mapsto> ''OLD'']"] h v
  show ?thesis by simp
qed

text \<open>
  C1 as stated speaks of every failure. \<open>filter_csv\<close> writes straight into the output
  path; nothing is staged and moved into place. A line with more fields than the header
  gives its record the key \<open>None\<close>, which \<open>writerows\<close> rejects with \<open>ValueError\<close>
  after the output file has been truncated and the header written: the cycle fails, and
  the published file, \<open>OLD\<close> before, now holds the header line alone.
\<close>

theorem run_once_write_failure_counterexample:
  "[example_output \<mapsto> ''OLD''] example_output = Some ''OLD'' \<and>
   fst (run_once plain_reader plain_writerow (Body [long_line_raw] False) example_output
          [example_output \<mapsto> ''OLD'']) = Inr False \<and>
   snd (run_once plain_reader plain_writerow (Body [long_line_raw] False) example_output
          [example_output \<mapsto> ''OLD'']) example_output = Some (''iso_country,icao_code'' @ CRLF)"
  by code_simp

subsection \<open>The staging file after a failed fetch\<close>

text \<open>
  C5. After every cycle the staging file is gone, on the failure paths as on the
  success path. The code removes it after a failed filter and after a successful one,
  but returns at once when the download fails: a stream that breaks after the bytes
  \<open>iso_c\<close> leaves a staging file holding exactly those bytes.
\<close>

theorem run_once_leaves_partial_download:
  "with_suffix example_output ''.tmp.csv'' = Inr example_temp \<and>
   fst (run_once plain_reader plain_writerow (Body [''iso_c''] True) example_output Map.empty) =
     Inr False \<and>
   snd (run_once plain_reader plain_writerow (Body [''iso_c''] True) example_output Map.empty)
     example_temp = Some ''iso_c''"
  by code_simp

subsection \<open>Running the pipeline twice\<close>

lemma run_once_again:
  "run_once rd wr resp output_path (snd (run_once rd wr resp output_path files)) =
     run_once rd wr resp output_path files"
proof (cases "with_suffix output_path ''.tmp.csv''")
  case (Inl e)
  then show ?thesis by (simp add: run_once_path_error)
next
  case (Inr temp_path)
  note t = with_suffix_tmp(1)[OF Inr]
  show ?thesis
  proof (cases resp)
    case RequestFailed
    with Inr show ?thesis by (simp add: run_once_request_failed)
  next
    case (Body chunks broken)
    show ?thesis
    proof (cases broken)
      case True
      with Body Inr show ?thesis by (simp add: run_once_stream_broken)
    next
      case False
      show ?thesis
      proof (cases "read_phase rd (concat (filter (\<lambda>chunk. chunk \<noteq> []) chunks))")
        case NoHeaders
        with Body False run_once_read_failure[where rd = rd and chunks = chunks, OF Inr]
        show ?thesis by simp
      next
        case (Raised e)
        with Body False run_once_read_failure[where rd = rd and chunks = chunks and e = e, OF Inr]
        show ?thesis by simp
      next
        case (Filtered out_fields filtered_data)
        note r = run_once_filtered[where rd = rd and chunks = chunks, OF Inr Filtered]
        let ?text = "render wr (out_fields # fst (writerows out_fields filtered_data))"
        have "((files(output_path \<mapsto> ?text))(temp_path := None))(output_path \<mapsto> ?text) =
              (files(output_path \<mapsto> ?text))(temp_path := None)"
          using t by (intro ext) simp
        with Body False r show ?thesis by simp
      qed
    qed
  qed
qed

text \<open>
  C8. Idempotence: with the source unchanged (the same response to both requests), a
  second run of the pipeline leaves at the output path the bytes the first run left
  there, and reports the same result.
\<close>

theorem run_once_idempotent:
  "snd (run_once rd wr resp output_path (snd (run_once rd wr resp output_path files))) output_path =
     snd (run_once rd wr resp output_path files) output_path \<and>
   fst (run_once rd wr resp output_path (snd (run_once rd wr resp output_path files))) =
     fst (run_once rd wr resp output_path files)"
  by (simp add: run_once_again)

theorem run_once_idempotent_witness:
  "fst (run_once plain_reader plain_writerow (Body [three_rows_raw] False) example_output Map.empty) = Inr True \<and>
   snd (run_once plain_reader plain_writerow (Body [three_rows_raw] False) example_output Map.empty)
     example_output = Some (''name,iso_country,icao_code'' @ CRLF @ ''A,US,K1'' @ CRLF) \<and>
   snd (run_once plain_reader plain_writerow (Body [three_rows_raw] False) example_output
     (snd (run_once plain_reader plain_writerow (Body [three_rows_raw] False) example_output Map.empty)))
     example_output = Some (''name,iso_country,icao_code'' @ CRLF @ ''A,US,K1'' @ CRLF)"
proof -
  have v1: "fst (run_once plain_reader plain_writerow (Body [three_rows_raw] False) example_output Map.empty) = Inr True"
    by code_simp
  have v2: "snd (run_once plain_reader plain_writerow (Body [three_rows_raw] False) example_output Map.empty)
     example_output = Some (''name,iso_country,icao_code'' @ CRLF @ ''A,US,K1'' @ CRLF)"
    by code_simp
  from run_once_idempotent[where rd = plain_reader and wr = plain_writerow
      and resp = "Body [three_rows_raw] False" and output_path = example_output
      and files = Map.empty] v1 v2
  show ?thesis by simp
qed

subsection \<open>The staging path\<close>

text \<open>
  C9, as the code has it. The staging path is computed from the output path alone: the
  same directory, and the name with its last suffix replaced by \<open>.tmp.csv\<close>. It is
  never the output path itself, and a cycle changes no file other than these two.
\<close>

theorem staging_path_determined:
  assumes "with_suffix output_path ''.tmp.csv'' = Inr temp_path"
  shows "temp_path =
           Path (parent output_path)
             (take (length (name output_path) - length (suffix_of (name output_path)))
                (name output_path) @ ''.tmp.csv'') \<and>
         temp_path \<noteq> output_path \<and>
         (\<forall>p. p \<noteq> temp_path \<and> p \<noteq> output_path \<longrightarrow>
            snd (run_once rd wr resp output_path files) p = files p)"
proof -
  from with_suffix_tmp(2,3)[OF assms]
  have "temp_path =
           Path (parent output_path)
             (take (length (name output_path) - length (suffix_of (name output_path)))
                (name output_path) @ ''.tmp.csv'')"
    by (cases temp_path) simp
  with with_suffix_tmp(1)[OF assms] run_once_frame[OF assms] show ?thesis by blast
qed

theorem staging_path_determined_witness:
  "with_suffix example_output ''.tmp.csv'' = Inr example_temp \<and>
   example_temp = Path [''data''] ''airports.tmp.csv'' \<and>
   example_temp \<noteq> example_output"
proof -
  have h: "with_suffix example_output ''.tmp.csv'' = Inr example_temp"
    by code_simp
  from staging_path_determined[OF h] h show ?thesis
    by (simp add: example_temp_def example_output_def)
qed

text \<open>
  C9 as stated asks for a staging path that is unique per run. Nothing of a run enters
  the path, so two instances with the same output path share one staging file: the
  second instance's download replaces what the first one staged, and the filter of
  the first instance then publishes the rows the second one downloaded.
\<close>

theorem staging_path_shared_counterexample:
  "with_suffix example_output ''.tmp.csv'' = Inr example_temp \<and>
   snd (download_file (Body [three_rows_raw] False) example_temp Map.empty) example_temp =
     Some three_rows_raw \<and>
   snd (download_file (Body [padded_raw] False) example_temp
          (snd (download_file (Body [three_rows_raw] False) example_temp Map.empty))) example_temp =
     Some padded_raw \<and>
   snd (filter_csv plain_reader plain_writerow example_temp example_output
          (snd (download_file (Body [padded_raw] False) example_temp
             (snd (download_file (Body [three_rows_raw] False) example_temp Map.empty)))))
     example_output = Some (''name,iso_country,icao_code'' @ CRLF @ ''A, US ,K1'' @ CRLF)"
  by code_simp

subsection \<open>Continuous mode\<close>

lemma run_once_returns:
  assumes "name output_path \<noteq> []"
  shows "\<exists>ok files'. run_once rd wr resp output_path files = (Inr ok, files')"
proof -
  from with_suffix_tmp_ok[OF assms] obtain temp_path where
    "with_suffix output_path ''.tmp.csv'' = Inr temp_path" ..
  then show ?thesis
    by (auto simp: run_once_def split: prod.splits)
qed

lemma run_once_no_name:
  "name output_path = [] \<Longrightarrow> run_once rd wr resp output_path files = (Inl ValueError, files)"
  by (simp add: run_once_def with_suffix_def)

lemma periodic_refused:
  "time_sleep s = Some e \<Longrightarrow>
     fst (periodic rd wr time_sleep output_path s resps files) = [Uncaught e]"
  by (cases resps) simp_all

lemma periodic_events:
  assumes "name output_path \<noteq> []" and "time_sleep s = None"
  shows "\<exists>oks.
           list_all2 (\<lambda>r ok. \<exists>before. fst (run_once rd wr r output_path before) = Inr ok)
             resps oks \<and>
           fst (periodic rd wr time_sleep output_path s resps files) =
             concat (map (\<lambda>ok. [Sleep s, Cycle ok]) oks) @ [Sleep s, Stopped]"
proof (induction resps arbitrary: files)
  case Nil
  from assms(2) show ?case by simp
next
  case (Cons resp resps)
  from run_once_returns[OF assms(1)] obtain ok files1 where
    r: "run_once rd wr resp output_path files = (Inr ok, files1)" by blast
  then have c: "\<exists>before. fst (run_once rd wr resp output_path before) = Inr ok"
    by (intro exI[of _ files]) simp
  from Cons.IH[of files1] obtain oks where
    "list_all2 (\<lambda>r ok. \<exists>before. fst (run_once rd wr r output_path before) = Inr ok) resps oks"
    "fst (periodic rd wr time_sleep output_path s resps files1) =
       concat (map (\<lambda>ok. [Sleep s, Cycle ok]) oks) @ [Sleep s, Stopped]"
    by blast
  with r c assms(2) have
    "list_all2 (\<lambda>r ok. \<exists>before. fst (run_once rd wr r output_path before) = Inr ok)
       (resp # resps) (ok # oks) \<and>
     fst (periodic rd wr time_sleep output_path s (resp # resps) files) =
       concat (map (\<lambda>ok. [Sleep s, Cycle ok]) (ok # oks)) @ [Sleep s, Stopped]"
    by (simp add: case_prod_beta)
  then show ?case by blast
qed

text \<open>
  C6, as the code has it. When the output path has a name and \<open>time.sleep\<close> accepts
  the interval \<open>interval_hours * 3600\<close>, one cycle runs at once; every further cycle
  comes right after a sleep of that interval, and there is one such cycle for every
  response of the environment, whether earlier cycles failed or not: the flag of each
  \<open>Cycle\<close> event is what \<open>run_once\<close> returned for the response of that cycle. The
  run ends in the sleep that the interrupt cuts short. When \<open>time.sleep\<close> refuses the
  interval, its exception ends the run after the first cycle; when the output path has
  no name, the \<open>ValueError\<close> of \<open>with_suffix\<close> ends it in the first cycle. The loop
  catches \<open>KeyboardInterrupt\<close> only.
\<close>

theorem run_continuously_events:
  "(name output_path = [] \<longrightarrow>
      fst (run_continuously rd wr time_sleep output_path interval_hours resp resps files) =
        [Uncaught ValueError]) \<and>
   (name output_path \<noteq> [] \<longrightarrow>
      (\<exists>ok. fst (run_once rd wr resp output_path files) = Inr ok \<and>
         (\<forall>e. time_sleep (interval_hours * 3600) = Some e \<longrightarrow>
            fst (run_continuously rd wr time_sleep output_path interval_hours resp resps files) =
              [Cycle ok, Uncaught e]) \<and>
         (time_sleep (interval_hours * 3600) = None \<longrightarrow>
            (\<exists>oks.
               list_all2 (\<lambda>r ok. \<exists>before. fst (run_once rd wr r output_path before) = Inr ok)
                 resps oks \<and>
               fst (run_continuously rd wr time_sleep output_path interval_hours resp resps files) =
                 Cycle ok #
                 concat (map (\<lambda>ok. [Sleep (interval_hours * 3600), Cycle ok]) oks) @
                 [Sleep (interval_hours * 3600), Stopped]))))"
proof (cases "name output_path = []")
  case True
  then show ?thesis
    by (simp add: run_continuously_def run_once_no_name)
next
  case False
  let ?s = "interval_hours * 3600"
  let ?events = "fst (run_continuously rd wr time_sleep output_path interval_hours resp resps files)"
  from run_once_returns[OF False] obtain ok files1 where
    r: "run_once rd wr resp output_path files = (Inr ok, files1)" by blast
  then have e: "?events = Cycle ok # fst (periodic rd wr time_sleep output_path ?s resps files1)"
    by (simp add: run_continuously_def Let_def case_prod_beta)
  have refused: "?events = [Cycle ok, Uncaught e]" if "time_sleep ?s = Some e" for e
    using e periodic_refused[where time_sleep = time_sleep and s = ?s, OF that] by simp
  have accepted: "\<exists>oks.
       list_all2 (\<lambda>r ok. \<exists>before. fst (run_once rd wr r output_path before) = Inr ok)
         resps oks \<and>
       ?events = Cycle ok # concat (map (\<lambda>ok. [Sleep ?s, Cycle ok]) oks) @ [Sleep ?s, Stopped]"
    if n: "time_sleep ?s = None"
  proof -
    from periodic_events[where time_sleep = time_sleep and s = ?s and rd = rd and wr = wr
        and resps = resps and files = files1, OF False n] obtain oks where
      "list_all2 (\<lambda>r ok. \<exists>before. fst (run_once rd wr r output_path before) = Inr ok) resps oks"
      "fst (periodic rd wr time_sleep output_path ?s resps files1) =
         concat (map (\<lambda>ok. [Sleep ?s, Cycle ok]) oks) @ [Sleep ?s, Stopped]"
      by blast
    with e show ?thesis by auto
  qed
  from r have first: "fst (run_once rd wr resp output_path files) = Inr ok" by simp
  have "fst (run_once rd wr resp output_path files) = Inr ok \<and>
        (\<forall>e. time_sleep ?s = Some e \<longrightarrow> ?events = [Cycle ok, Uncaught e]) \<and>
        (time_sleep ?s = None \<longrightarrow>
           (\<exists>oks.
              list_all2 (\<lambda>r ok. \<exists>before. fst (run_once rd wr r output_path before) = Inr ok)
                resps oks \<and>
              ?events =
                Cycle ok # concat (map (\<lambda>ok. [Sleep ?s, Cycle ok]) oks) @ [Sleep ?s, Stopped]))"
  proof (intro conjI allI impI)
    show "fst (run_once rd wr resp output_path files) = Inr ok" by (rule first)
  next
    fix e assume "time_sleep ?s = Some e"
    then show "?events = [Cycle ok, Uncaught e]" by (rule refused)
  next
    assume "time_sleep ?s = None"
    then show "\<exists>oks.
              list_all2 (\<lambda>r ok. \<exists>before. fst (run_once rd wr r output_path before) = Inr ok)
                resps oks \<and>
              ?events =
                Cycle ok # concat (map (\<lambda>ok. [Sleep ?s, Cycle ok]) oks) @ [Sleep ?s, Stopped]"
      by (rule accepted)
  qed
  then have "\<exists>ok. fst (run_once rd wr resp output_path files) = Inr ok \<and>
        (\<forall>e. time_sleep ?s = Some e \<longrightarrow> ?events = [Cycle ok, Uncaught e]) \<and>
        (time_sleep ?s = None \<longrightarrow>
           (\<exists>oks.
              list_all2 (\<lambda>r ok. \<exists>before. fst (run_once rd wr r output_path before) = Inr ok)
                resps oks \<and>
              ?events =
                Cycle ok # concat (map (\<lambda>ok. [Sleep ?s, Cycle ok]) oks) @ [Sleep ?s, Stopped]))"
    by (rule exI)
  with False show ?thesis by simp
qed

theorem run_continuously_events_witness:
  "name example_output \<noteq> [] \<and>
   sleep_check (24 * 3600) = None \<and>
   fst (run_continuously plain_reader plain_writerow sleep_check example_output 24 RequestFailed
          [Body [''iso_c''] True, Body [three_rows_raw] False] Map.empty) =
     [Cycle False, Sleep (24 * 3600), Cycle False, Sleep (24 * 3600), Cycle True,
      Sleep (24 * 3600), Stopped]"
proof -
  have h: "name example_output \<noteq> []" by (simp add: example_output_def)
  have n: "sleep_check (24 * 3600) = None" by (simp add: sleep_check_def)
  have v: "fst (run_continuously plain_reader plain_writerow sleep_check example_output 24
          RequestFailed [Body [''iso_c''] True, Body [three_rows_raw] False] Map.empty) =
     [Cycle False, Sleep (24 * 3600), Cycle False, Sleep (24 * 3600), Cycle True,
      Sleep (24 * 3600), Stopped]"
    by code_simp
  from run_continuously_events[where rd = plain_reader and wr = plain_writerow
      and time_sleep = sleep_check and output_path = example_output
      and resp = RequestFailed and resps = "[Body [''iso_c''] True, Body [three_rows_raw] False]"
      and files = Map.empty and interval_hours = 24] h n v
  show ?thesis by simp
qed

text \<open>
  C6 as stated has the next cycle attempted after every failed cycle. With an interval
  of \<open>-1\<close> hours the first cycle fails (the request fails), \<open>time.sleep\<close> raises
  \<open>ValueError\<close> on the negative argument, and the run ends there: the second
  request of the environment is never made.
\<close>

theorem run_continuously_negative_interval_counterexample:
  "sleep_check (- 1 * 3600) = Some ValueError \<and>
   fst (run_once plain_reader plain_writerow RequestFailed example_output Map.empty) =
     Inr False \<and>
   fst (run_continuously plain_reader plain_writerow sleep_check example_output (- 1)
          RequestFailed [Body [three_rows_raw] False] Map.empty) =
     [Cycle False, Uncaught ValueError]"
proof -
  have "sleep_check (- 1 * 3600) = Some ValueError" by (simp add: sleep_check_def)
  moreover have
    "fst (run_once plain_reader plain_writerow RequestFailed example_output Map.empty) =
     Inr False"
    by code_simp
  moreover have
    "fst (run_continuously plain_reader plain_writerow sleep_check example_output (- 1)
          RequestFailed [Body [three_rows_raw] False] Map.empty) =
     [Cycle False, Uncaught ValueError]"
    by code_simp
  ultimately show ?thesis by simp
qed

end
